theory Spec2Isabelle
  imports Complex_Main "HOL-Library.Multiset"
begin

section \<open>Token reduction of \<^verbatim>\<open>src/models/evit.py\<close>\<close>

text \<open>
  The embedding follows one row of the batch: every tensor operation of the reduction
  (\<^verbatim>\<open>topk\<close>, \<^verbatim>\<open>gather\<close>, \<^verbatim>\<open>scatter\<close>, \<^verbatim>\<open>sort\<close>,
  \<^verbatim>\<open>sum\<close>, \<^verbatim>\<open>cat\<close>) works along dimension 1 (or the trailing dimension) and
  treats dimension 0 as a batch of independent rows. A token (the \<open>C\<close> channels of one
  position) is an element of a real vector space \<open>'v\<close>; scores and keep rates are exact
  reals, so the rounding of the float arithmetic is not part of the model.
\<close>

subsection \<open>Errors\<close>

datatype error = AssertionError | UnboundLocalError | IndexError | RuntimeError

subsection \<open>\<^verbatim>\<open>complement_idx\<close> (lines 60-81)\<close>

text \<open>
  \<^verbatim>\<open>torch.scatter(a, -1, idx, 0)\<close>: every position named by \<open>idx\<close> is overwritten
  with \<open>0\<close>; an index outside the tensor raises.
\<close>

fun scatter_zero :: "nat list \<Rightarrow> nat list \<Rightarrow> error + nat list" where
  "scatter_zero a [] = Inr a"
| "scatter_zero a (i # idx) =
     (if i < length a then scatter_zero (a[i := 0]) idx else Inl RuntimeError)"

text \<open>
  \<^verbatim>\<open>a = torch.arange(dim)\<close>, \<^verbatim>\<open>masked = torch.scatter(a, -1, idx, 0)\<close>,
  \<^verbatim>\<open>compl, _ = torch.sort(masked, dim=-1, descending=False)\<close> and
  \<^verbatim>\<open>compl[n_idx:]\<close> on the trailing dimension, with \<open>n_idx\<close> the length of \<open>idx\<close>.
\<close>

definition complement_idx :: "nat list \<Rightarrow> nat \<Rightarrow> error + nat list" where
  "complement_idx idx dim' =
     (let a = [0..<dim'];
          n_idx = length idx
      in case scatter_zero a idx of
           Inl e \<Rightarrow> Inl e
         | Inr masked \<Rightarrow> Inr (drop n_idx (sort masked)))"

subsection \<open>Tensor primitives\<close>

text \<open>Sequencing of fallible steps: the first error aborts the forward pass.\<close>

definition err_bind :: "error + 'a \<Rightarrow> ('a \<Rightarrow> error + 'b) \<Rightarrow> error + 'b" where
  "err_bind m f = (case m of Inl e \<Rightarrow> Inl e | Inr v \<Rightarrow> f v)"

text \<open>
  \<^verbatim>\<open>torch.gather(src, dim=1, index=index)\<close> on one row: the entries of \<open>src\<close> at the
  positions \<open>index\<close>, in the order of \<open>index\<close>; an index outside \<open>src\<close> raises.
\<close>

definition gather :: "'a list \<Rightarrow> nat list \<Rightarrow> error + 'a list" where
  "gather src index =
     (if list_all (\<lambda>i. i < length src) index then Inr (map (\<lambda>i. src ! i) index)
      else Inl RuntimeError)"

text \<open>
  Modelled from the spec: \<^verbatim>\<open>torch.topk(input, k, dim=1, largest=True, sorted=True)\<close> is
  a primitive of the tensor library and not code under \<^verbatim>\<open>src/\<close>; only its indices are
  used (line 211). The spec describes the selector as a stable descending sort with
  "largest, sorted" semantics, of which the first \<open>k\<close> indices are kept: \<open>sort_key\<close> is
  the stable insertion sort, here by the negated score. The library raises when \<open>k\<close>
  exceeds the size of the dimension.
\<close>

definition topk :: "real list \<Rightarrow> nat \<Rightarrow> error + nat list" where
  "topk input k =
     (if k \<le> length input
      then Inr (take k (sort_key (\<lambda>i. - (input ! i)) [0..<length input]))
      else Inl RuntimeError)"

text \<open>\<^verbatim>\<open>torch.cat(tensors, dim=1)\<close>: an empty list of tensors raises.\<close>

definition torch_cat :: "'a list list \<Rightarrow> error + 'a list" where
  "torch_cat tensors = (if tensors = [] then Inl RuntimeError else Inr (concat tensors))"

subsection \<open>\<^verbatim>\<open>Block\<close> (lines 147-234)\<close>

text \<open>
  The attention weights of one row are \<open>[H, N, N]\<close>: heads, query positions, key
  positions. The attention and feed-forward sublayers are parameters of a block:
  \<open>attn_branch x\<close> stands for \<^verbatim>\<open>self.attn(self.norm1(x))\<close> with its first component
  already passed through \<^verbatim>\<open>self.drop_path1(self.ls1(tmp))\<close>, and \<open>mlp_branch x\<close> for
  \<^verbatim>\<open>self.drop_path2(self.ls2(self.mlp(self.norm2(x))))\<close>.
\<close>

type_synonym attn_weights = "real list list list"

record 'v Block =
  attn_branch :: "'v list \<Rightarrow> 'v list \<times> attn_weights"
  mlp_branch :: "'v list \<Rightarrow> 'v list"
  keep_rate :: real

text \<open>
  \<^verbatim>\<open>Block.__init__\<close>, line 190:
  \<^verbatim>\<open>assert 0 < keep_rate <= 1\<close>.
\<close>

definition Block_init ::
  "('v list \<Rightarrow> 'v list \<times> attn_weights) \<Rightarrow> ('v list \<Rightarrow> 'v list) \<Rightarrow> real \<Rightarrow> error + 'v Block" where
  "Block_init attn_sub mlp_sub kr =
     (if 0 < kr \<and> kr \<le> 1
      then Inr \<lparr>attn_branch = attn_sub, mlp_branch = mlp_sub, keep_rate = kr\<rparr>
      else Inl AssertionError)"

text \<open>
  The residual additions of lines 196 and 229. Both branches return the shape of their
  input; an addend of another length is reported as the shape error of the library
  (broadcasting of a length-one addend is not modelled).
\<close>

definition add_residual :: "'v::real_vector list \<Rightarrow> 'v list \<Rightarrow> error + 'v list" where
  "add_residual x t =
     (if length t = length x then Inr (map2 (+) x t) else Inl RuntimeError)"

text \<open>
  Lines 209-210: \<^verbatim>\<open>cls_attn = attn[:, :, 0, 1:]\<close> takes, in every head, the row of
  query position \<open>0\<close> without its first column; \<^verbatim>\<open>cls_attn.mean(dim=1)\<close> averages
  over the heads. Indexing row \<open>0\<close> of a head without rows raises. The width is that of
  the first head: the tensor is rectangular, and has at least one head.
\<close>

definition head_mean :: "real list list \<Rightarrow> real list" where
  "head_mean rows =
     map (\<lambda>j. sum_list (map (\<lambda>r. r ! j) rows) / real (length rows))
         [0..<(case rows of [] \<Rightarrow> 0 | r # _ \<Rightarrow> length r)]"

definition cls_attn_of :: "attn_weights \<Rightarrow> error + real list" where
  "cls_attn_of attn =
     (if list_all (\<lambda>h. h \<noteq> []) attn
      then Inr (head_mean (map (\<lambda>h. drop 1 (h ! 0)) attn))
      else Inl IndexError)"

text \<open>Line 206: \<^verbatim>\<open>left_tokens = math.ceil(self.keep_rate * (N - 1))\<close>.\<close>

definition left_tokens_of :: "real \<Rightarrow> nat \<Rightarrow> int" where
  "left_tokens_of kr N = \<lceil>kr * (real N - 1)\<rceil>"

text \<open>
  Line 222: \<^verbatim>\<open>torch.sum(non_topk * non_topk_attn.unsqueeze(-1), dim=1, keepdim=True)\<close>;
  the score of a token multiplies each of its channels.
\<close>

definition extra_token_of :: "'v::real_vector list \<Rightarrow> real list \<Rightarrow> 'v" where
  "extra_token_of non_topk non_topk_attn =
     sum_list (map2 (\<lambda>t s. s *\<^sub>R t) non_topk non_topk_attn)"

text \<open>
  What the local names \<^verbatim>\<open>index\<close>, \<^verbatim>\<open>idx\<close> and \<^verbatim>\<open>compl\<close> hold after the
  conditional of lines 205-227: nothing at all (\<open>Unbound\<close>: the outer test held and the
  inner one did not, so no branch assigned \<^verbatim>\<open>index\<close>), \<^verbatim>\<open>index = None\<close> from the
  \<^verbatim>\<open>else\<close> branch, or the tensors of the reduction, of which \<^verbatim>\<open>idx\<close> (with the
  \<open>-1\<close> entry of line 225 appended) and \<^verbatim>\<open>compl\<close> are returned.
\<close>

datatype locals = Unbound | IndexNone | Bound "int list" "nat list"

text \<open>
  Lines 205-227, on the sequence \<open>x\<close> after the attention residual; \<open>N\<close> is
  \<^verbatim>\<open>x.shape[1]\<close> as read in line 193.
\<close>

definition reduce_tokens ::
  "real \<Rightarrow> nat \<Rightarrow> 'v::real_vector list \<Rightarrow> attn_weights \<Rightarrow> error + ('v list \<times> locals)" where
  "reduce_tokens kr N x attn =
     (if kr < 1 then
        (let left_tokens = left_tokens_of kr N in
         if left_tokens \<noteq> int N - 1 then
           (if left_tokens \<ge> 1 then
              err_bind (cls_attn_of attn) (\<lambda>cls_attn.
              err_bind (topk cls_attn (nat left_tokens)) (\<lambda>idx.
              let non_cls = drop 1 x in
              err_bind (gather non_cls idx) (\<lambda>x_others.
              err_bind (complement_idx idx (N - 1)) (\<lambda>compl.
              err_bind (gather non_cls compl) (\<lambda>non_topk.
              err_bind (gather cls_attn compl) (\<lambda>non_topk_attn.
              let extra_token = extra_token_of non_topk non_topk_attn in
              Inr (take 1 x @ x_others @ [extra_token],
                   Bound (map int idx @ [- 1]) compl)))))))
            else Inl AssertionError)
         else Inr (x, Unbound))
      else Inr (x, IndexNone))"

text \<open>
  \<^verbatim>\<open>Block.forward\<close>. Line 232 reads \<^verbatim>\<open>index\<close>: an unbound local name raises
  \<^verbatim>\<open>UnboundLocalError\<close>.
\<close>

definition Block_forward ::
  "'v::real_vector Block \<Rightarrow> 'v list \<Rightarrow> error + ('v list \<times> int \<times> int list option \<times> nat list option)" where
  "Block_forward self x =
     (let N = length x;
          (tmp, attn) = attn_branch self x
      in err_bind (add_residual x tmp) (\<lambda>x1.
         err_bind (reduce_tokens (keep_rate self) N x1 attn) (\<lambda>(x2, vars).
         err_bind (add_residual x2 (mlp_branch self x2)) (\<lambda>x3.
         let n_tokens = int (length x3) - 1 in
         case vars of
           Unbound \<Rightarrow> Inl UnboundLocalError
         | IndexNone \<Rightarrow> Inr (x3, n_tokens, None, None)
         | Bound idx compl \<Rightarrow> Inr (x3, n_tokens, Some idx, Some compl)))))"

subsection \<open>\<^verbatim>\<open>EViT.__init__\<close> (lines 317-421)\<close>

text \<open>
  The arguments the reduction and the cache read. \<open>arg_sublayers i\<close> gives the two
  sublayers of block \<open>i\<close>.
\<close>

record 'v args =
  arg_depth :: nat
  arg_class_token :: bool
  arg_reg_tokens :: nat
  arg_keep_rate :: "real list"
  arg_reduction_loc :: "int list"
  arg_clc :: bool
  arg_clc_include_gap :: bool
  arg_clc_pool_cls :: bool
  arg_clc_pool_clr :: bool
  arg_clc_recover_at_last :: bool
  arg_num_clr :: nat
  arg_sublayers :: "nat \<Rightarrow> ('v list \<Rightarrow> 'v list \<times> attn_weights) \<times> ('v list \<Rightarrow> 'v list)"

text \<open>
  The attributes of the model. \<open>clr\<close> is \<open>Some n\<close> when the attribute
  \<^verbatim>\<open>self.clr\<close> exists with \<^verbatim>\<open>self.num_clr = n\<close> (after \<^verbatim>\<open>add_clr\<close>), and
  \<open>None\<close> when \<^verbatim>\<open>hasattr(self, 'clr')\<close> is false.
\<close>

record 'v EViT =
  blocks :: "'v Block list"
  num_prefix_tokens :: nat
  reduction_loc :: "int list"
  token_ratio :: "real list"
  recovery_layers :: "int list"
  clc :: bool
  clc_include_gap :: bool
  clc_pool_cls :: bool
  clc_pool_clr :: bool
  clr :: "nat option"

text \<open>Lines 317-318.\<close>

definition num_prefix_tokens_of :: "bool \<Rightarrow> nat \<Rightarrow> nat" where
  "num_prefix_tokens_of class_token reg_tokens = (if class_token then 1 else 0) + reg_tokens"

text \<open>The position an index names in a list of length \<open>n\<close>; negative indices count from the end.\<close>

definition py_index :: "nat \<Rightarrow> int \<Rightarrow> nat option" where
  "py_index n i =
     (if 0 \<le> i \<and> i < int n then Some (nat i)
      else if - int n \<le> i \<and> i < 0 then Some (nat (int n + i))
      else None)"

text \<open>
  Lines 338-339: \<^verbatim>\<open>for idx, loc in enumerate(reduction_loc): token_ratio_full[loc] = token_ratio[idx]\<close>,
  on the pairs \<open>(loc, token_ratio[idx])\<close>.
\<close>

fun set_token_ratio :: "real list \<Rightarrow> (int \<times> real) list \<Rightarrow> error + real list" where
  "set_token_ratio token_ratio_full [] = Inr token_ratio_full"
| "set_token_ratio token_ratio_full ((loc, r) # rest) =
     (case py_index (length token_ratio_full) loc of
        None \<Rightarrow> Inl IndexError
      | Some p \<Rightarrow> set_token_ratio (token_ratio_full[p := r]) rest)"

text \<open>Lines 376-392: block \<open>i\<close> is built with \<^verbatim>\<open>keep_rate=token_ratio_full[i]\<close>.\<close>

fun init_blocks ::
  "(nat \<Rightarrow> ('v list \<Rightarrow> 'v list \<times> attn_weights) \<times> ('v list \<Rightarrow> 'v list)) \<Rightarrow> nat \<Rightarrow> real list
     \<Rightarrow> error + 'v Block list" where
  "init_blocks sub i [] = Inr []"
| "init_blocks sub i (r # rs) =
     err_bind (Block_init (fst (sub i)) (snd (sub i)) r) (\<lambda>blk.
     err_bind (init_blocks sub (Suc i) rs) (\<lambda>blks. Inr (blk # blks)))"

definition EViT_init :: "'v args \<Rightarrow> error + 'v EViT" where
  "EViT_init args =
     (let depth = arg_depth args;
          token_ratio0 = arg_keep_rate args;
          reduction_loc = arg_reduction_loc args;
          token_ratio = (if length token_ratio0 = 1
                         then map (\<lambda>_. token_ratio0 ! 0) reduction_loc else token_ratio0)
      in if length token_ratio = length reduction_loc then
           err_bind (set_token_ratio (replicate depth 1) (zip reduction_loc token_ratio))
             (\<lambda>token_ratio_full.
           err_bind (init_blocks (arg_sublayers args) 0 token_ratio_full) (\<lambda>blks.
           let recovery_layers = (if arg_clc_recover_at_last args
                                  then reduction_loc @ [int depth - 2] else reduction_loc)
           in if arg_clc args \<and> arg_num_clr args = 0 \<and> \<not> arg_clc_include_gap args
              then Inl AssertionError
              else Inr \<lparr>blocks = blks,
                        num_prefix_tokens =
                          num_prefix_tokens_of (arg_class_token args) (arg_reg_tokens args),
                        reduction_loc = reduction_loc,
                        token_ratio = token_ratio,
                        recovery_layers = recovery_layers,
                        clc = arg_clc args,
                        clc_include_gap = arg_clc_include_gap args,
                        clc_pool_cls = arg_clc_pool_cls args,
                        clc_pool_clr = arg_clc_pool_clr args,
                        clr = None\<rparr>))
         else Inl AssertionError)"

text \<open>
  \<^verbatim>\<open>add_clr(num_clr)\<close>, lines 507-511, as far as the forward pass reads it: the attribute
  exists from then on when \<open>0 < num_clr\<close>.
\<close>

definition add_clr :: "'v EViT \<Rightarrow> nat \<Rightarrow> 'v EViT" where
  "add_clr self n = (if 0 < n then self\<lparr>clr := Some n\<rparr> else self)"

subsection \<open>The stages of \<^verbatim>\<open>EViT.forward\<close> (lines 630-672)\<close>

text \<open>
  The state of the loop over the blocks: the sequence \<^verbatim>\<open>x\<close> (\<open>tokens\<close>), the cache buffer and
  \<^verbatim>\<open>curr_num_pool\<close>. The buffer is read only when the cache is enabled.
\<close>

record 'v loop_state =
  tokens :: "'v list"
  cross_layer_cache :: "'v list list"
  curr_num_pool :: int

text \<open>Lines 631-635.\<close>

definition init_state :: "'v EViT \<Rightarrow> 'v list \<Rightarrow> 'v loop_state" where
  "init_state self x0 =
     \<lparr>tokens = x0, cross_layer_cache = [],
      curr_num_pool = (case clr self of
                         Some n \<Rightarrow> if clc_pool_clr self then int (length x0)
                                   else int (length x0) - int n
                       | None \<Rightarrow> int (length x0))\<rparr>"

text \<open>The slice \<^verbatim>\<open>x[:, :stop]\<close>; a negative \<open>stop\<close> counts from the end.\<close>

definition slice_to :: "'a list \<Rightarrow> int \<Rightarrow> 'a list" where
  "slice_to xs stop = take (if stop < 0 then nat (int (length xs) + stop) else nat stop) xs"

text \<open>
  \<^verbatim>\<open>reduce(feats_to_pool, 'b s d -> b 1 d', 'mean')\<close>: the mean of the tokens (of an
  empty slice the library gives NaN, the model the zero vector).
\<close>

definition gap_of :: "'v::real_vector list \<Rightarrow> 'v" where
  "gap_of feats_to_pool = (1 / real (length feats_to_pool)) *\<^sub>R sum_list feats_to_pool"

text \<open>Lines 649-653.\<close>

definition recover :: "'v EViT \<Rightarrow> nat \<Rightarrow> 'v loop_state \<Rightarrow> error + 'v loop_state" where
  "recover self i st =
     (if clc self \<and> int i \<in> set (recovery_layers self) then
        err_bind (torch_cat (cross_layer_cache st)) (\<lambda>prev_feats.
        Inr (st\<lparr>curr_num_pool := int (length (tokens st)),
                tokens := tokens st @ prev_feats,
                cross_layer_cache := []\<rparr>))
      else Inr st)"

text \<open>
  Lines 656-672. \<^verbatim>\<open>self.recovery_layers[-1]\<close> is read only when the cache is
  enabled, and raises on an empty list.
\<close>

definition cross_layer_carriers_of :: "'v::real_vector EViT \<Rightarrow> 'v loop_state \<Rightarrow> 'v list list" where
  "cross_layer_carriers_of self st =
     (if clc_include_gap self then
        [[gap_of (if clc_pool_cls self then slice_to (tokens st) (curr_num_pool st)
                  else drop 1 (slice_to (tokens st) (curr_num_pool st)))]]
      else []) @
     (case clr self of
        Some n \<Rightarrow> [drop (length (tokens st) - n) (tokens st)]
      | None \<Rightarrow> [])"

definition accumulate :: "'v::real_vector EViT \<Rightarrow> nat \<Rightarrow> 'v loop_state \<Rightarrow> error + 'v loop_state" where
  "accumulate self i st =
     (if clc self then
        (if recovery_layers self = [] then Inl IndexError
         else if int i < last (recovery_layers self) then
           err_bind (torch_cat (cross_layer_carriers_of self st)) (\<lambda>cross_layer_carriers.
           Inr (st\<lparr>cross_layer_cache := cross_layer_cache st @ [cross_layer_carriers]\<rparr>))
         else Inr st)
      else Inr st)"

text \<open>One iteration of the loop of line 637, for block \<open>blk\<close> at stage \<open>i\<close>.\<close>

definition stage ::
  "'v::real_vector EViT \<Rightarrow> nat \<Rightarrow> 'v Block \<Rightarrow> 'v loop_state \<Rightarrow> error + 'v loop_state" where
  "stage self i blk st =
     err_bind (Block_forward blk (tokens st)) (\<lambda>(x1, left_token, sample_idx, compl).
     err_bind (recover self i (st\<lparr>tokens := x1\<rparr>)) (\<lambda>st1.
     accumulate self i st1))"

text \<open>
  The loop, from stage \<open>i\<close> on: the states after each stage, in order (the last one
  holds the sequence that leaves the blocks).
\<close>

fun stages ::
  "'v::real_vector EViT \<Rightarrow> nat \<Rightarrow> 'v Block list \<Rightarrow> 'v loop_state \<Rightarrow> error + 'v loop_state list" where
  "stages self i [] st = Inr []"
| "stages self i (blk # blks) st =
     err_bind (stage self i blk st) (\<lambda>st1.
     err_bind (stages self (Suc i) blks st1) (\<lambda>rest. Inr (st1 # rest)))"

definition forward_blocks :: "'v::real_vector EViT \<Rightarrow> 'v list \<Rightarrow> error + 'v loop_state list" where
  "forward_blocks self x0 = stages self 0 (blocks self) (init_state self x0)"

subsection \<open>Shapes\<close>

text \<open>
  The attention weights that go with a sequence of \<open>N\<close> tokens: at least one head, and
  every head an \<open>N\<close> by \<open>N\<close> matrix.
\<close>

definition attn_shape :: "nat \<Rightarrow> attn_weights \<Rightarrow> bool" where
  "attn_shape N attn =
     (attn \<noteq> [] \<and> list_all (\<lambda>h. length h = N \<and> list_all (\<lambda>r. length r = N) h) attn)"

text \<open>
  What \<^verbatim>\<open>Attention.forward\<close> and the feed-forward sublayer guarantee of their results:
  the branch has the length of the sequence it was given, and the attention weights have
  its shape.
\<close>

definition shape_ok ::
  "('v list \<Rightarrow> 'v list \<times> attn_weights) \<Rightarrow> ('v list \<Rightarrow> 'v list) \<Rightarrow> bool" where
  "shape_ok attn_sub mlp_sub =
     (\<forall>x. length (fst (attn_sub x)) = length x \<and>
          attn_shape (length x) (snd (attn_sub x)) \<and>
          length (mlp_sub x) = length x)"

text \<open>
  The sequence lengths after each stage, as the keep rates of the blocks and the length
  \<open>N\<close> before the first of them determine them when the cache is off: a stage whose
  keep rate is below \<open>1\<close> leaves the first token, \<open>left_tokens\<close> kept tokens and the fused
  token; any other stage leaves the length as it is. \<open>None\<close> when a stage with a keep
  rate below \<open>1\<close> finds \<open>left_tokens = N - 1\<close>.
\<close>

fun stage_lengths :: "real list \<Rightarrow> nat \<Rightarrow> nat list option" where
  "stage_lengths [] N = Some []"
| "stage_lengths (kr # krs) N =
     (if kr < 1 then
        (if left_tokens_of kr N = int N - 1 then None
         else map_option (\<lambda>ls. (nat (left_tokens_of kr N) + 2) # ls)
                (stage_lengths krs (nat (left_tokens_of kr N) + 2)))
      else map_option (\<lambda>ls. N # ls) (stage_lengths krs N))"

subsection \<open>Concrete inputs\<close>

text \<open>
  A sequence of four one-channel tokens with the attention weights of two heads, and
  sublayers that keep every shape: the attention branch halves each token and attends
  uniformly with one head, the feed-forward branch returns the token itself.
\<close>

definition ex_x :: "real list" where
  "ex_x = [10, 20, 30, 40]"

definition ex_attn :: attn_weights where
  "ex_attn =
     [[[4/10, 3/10, 1/10, 3/10], [1/4, 1/4, 1/4, 1/4], [1/4, 1/4, 1/4, 1/4], [1/4, 1/4, 1/4, 1/4]],
      [[2/10, 3/10, 3/10, 3/10], [1/4, 1/4, 1/4, 1/4], [1/4, 1/4, 1/4, 1/4], [1/4, 1/4, 1/4, 1/4]]]"

definition ex_attn_sub :: "real list \<Rightarrow> real list \<times> attn_weights" where
  "ex_attn_sub x = (map (\<lambda>t. t / 2) x, [map (\<lambda>q. map (\<lambda>k. 1 / real (length x)) x) x])"

definition ex_mlp_sub :: "real list \<Rightarrow> real list" where
  "ex_mlp_sub x = x"

definition ex_block :: "real \<Rightarrow> real Block" where
  "ex_block kr = \<lparr>attn_branch = ex_attn_sub, mlp_branch = ex_mlp_sub, keep_rate = kr\<rparr>"

text \<open>The configuration of the end-to-end example, with these sublayers in every block.\<close>

definition ex_args :: "real args" where
  "ex_args = \<lparr>arg_depth = 12, arg_class_token = True, arg_reg_tokens = 0,
     arg_keep_rate = [9 / 10, 9 / 10, 9 / 10], arg_reduction_loc = [3, 6, 9],
     arg_clc = False, arg_clc_include_gap = False, arg_clc_pool_cls = False,
     arg_clc_pool_clr = False, arg_clc_recover_at_last = False, arg_num_clr = 0,
     arg_sublayers = (\<lambda>i. (ex_attn_sub, ex_mlp_sub))\<rparr>"

text \<open>
  A configuration with the cache on and the pooled carrier, the model that
  construction gives for it, and the state of its loop after stage \<open>0\<close> for the tokens
  \<open>10, 20, 30, 40, 50\<close>.
\<close>

definition cache_args :: "real args" where
  "cache_args = \<lparr>arg_depth = 3, arg_class_token = True, arg_reg_tokens = 0,
     arg_keep_rate = [1 / 2], arg_reduction_loc = [1, 2],
     arg_clc = True, arg_clc_include_gap = True, arg_clc_pool_cls = False,
     arg_clc_pool_clr = False, arg_clc_recover_at_last = False, arg_num_clr = 0,
     arg_sublayers = (\<lambda>i. (ex_attn_sub, ex_mlp_sub))\<rparr>"

definition cache_model :: "real EViT" where
  "cache_model = \<lparr>blocks = [ex_block 1, ex_block (1 / 2), ex_block (1 / 2)],
     num_prefix_tokens = 1, reduction_loc = [1, 2], token_ratio = [1 / 2, 1 / 2],
     recovery_layers = [1, 2], clc = True, clc_include_gap = True, clc_pool_cls = False,
     clc_pool_clr = False, clr = None\<rparr>"

definition cache_state :: "real loop_state" where
  "cache_state = \<lparr>tokens = [30, 60, 90, 120, 150], cross_layer_cache = [[105]], curr_num_pool = 5\<rparr>"

section \<open>Properties\<close>

subsection \<open>The complement\<close>

lemma scatter_zero_eq:
  "set idx \<subseteq> {0..<length a} \<Longrightarrow>
   scatter_zero a idx = Inr (map (\<lambda>j. if j \<in> set idx then 0 else a ! j) [0..<length a])"
proof (induction idx arbitrary: a)
  case Nil
  show ?case by (simp add: map_nth)
next
  case (Cons i idx)
  have i: "i < length a" using Cons.prems by simp
  have sub: "set idx \<subseteq> {0..<length (a[i := 0])}" using Cons.prems by simp
  have "scatter_zero (a[i := 0]) idx =
        Inr (map (\<lambda>j. if j \<in> set idx then 0 else a[i := 0] ! j) [0..<length a])"
    using Cons.IH [OF sub] by simp
  moreover have "map (\<lambda>j. if j \<in> set idx then 0 else a[i := 0] ! j) [0..<length a] =
                 map (\<lambda>j. if j \<in> set (i # idx) then 0 else a ! j) [0..<length a]"
    by (rule map_cong) (auto simp: nth_list_update)
  ultimately show ?case using i by simp
qed

lemma masked_arange:
  assumes "set idx \<subseteq> {0..<dim'}"
  shows "scatter_zero [0..<dim'] idx =
         Inr (map (\<lambda>j. if j \<in> insert 0 (set idx) then 0 else j) [0..<dim'])"
proof -
  have "scatter_zero [0..<dim'] idx =
        Inr (map (\<lambda>j. if j \<in> set idx then 0 else [0..<dim'] ! j) [0..<length [0..<dim']])"
    by (rule scatter_zero_eq) (use assms in simp)
  moreover have "map (\<lambda>j. if j \<in> set idx then 0 else [0..<dim'] ! j) [0..<length [0..<dim']] =
                 map (\<lambda>j. if j \<in> insert 0 (set idx) then 0 else j) [0..<dim']"
    by (rule map_cong) auto
  ultimately show ?thesis by simp
qed

lemma mset_map_partition: "mset (map f xs) = mset (map f (filter P xs)) + mset (map f (filter (\<lambda>x. \<not> P x) xs))"
  by (induction xs) auto

lemma map_const_filter: "map (\<lambda>j. if j \<in> S then (0::nat) else j) (filter (\<lambda>j. j \<in> S) xs) = replicate (length (filter (\<lambda>j. j \<in> S) xs)) 0"
  by (induction xs) auto

lemma map_id_filter: "map (\<lambda>j. if j \<in> S then (0::nat) else j) (filter (\<lambda>j. j \<notin> S) xs) = filter (\<lambda>j. j \<notin> S) xs"
  by (induction xs) auto

lemma sort_masked:
  "sort (map (\<lambda>j. if j \<in> S then 0 else j) [0..<dim']) =
   replicate (length (filter (\<lambda>j. j \<in> S) [0..<dim'])) (0::nat) @ filter (\<lambda>j. j \<notin> S) [0..<dim']"
proof (rule properties_for_sort)
  let ?f = "\<lambda>j::nat. if j \<in> S then 0 else j"
  show "mset (replicate (length (filter (\<lambda>j. j \<in> S) [0..<dim'])) (0::nat) @
                         filter (\<lambda>j. j \<notin> S) [0..<dim']) =
                   mset (map ?f [0..<dim'])"
    unfolding mset_map_partition [of ?f "[0..<dim']" "\<lambda>j. j \<in> S"] map_const_filter map_id_filter
    by simp
  show "sorted (replicate (length (filter (\<lambda>j. j \<in> S) [0..<dim'])) (0::nat) @
                filter (\<lambda>j. j \<notin> S) [0..<dim'])"
    by (simp add: sorted_append sorted_wrt_filter)
qed


lemma filter_not_insert0:
  "filter (\<lambda>j. j \<notin> insert 0 A) [0..<d] = filter (\<lambda>j. j \<notin> A) [Suc 0..<d]"
proof -
  have "filter (\<lambda>j. j \<notin> insert 0 A) [0..<d] = filter (\<lambda>j. j \<notin> insert 0 A) [Suc 0..<d]"
    by (cases "0 < d") (simp_all add: upt_conv_Cons)
  also have "\<dots> = filter (\<lambda>j. j \<notin> A) [Suc 0..<d]"
    by (rule filter_cong) auto
  finally show ?thesis .
qed

lemma drop_replicate_Suc_append: "drop n (replicate (Suc n) z @ ys) = z # ys"
  by (induction n) simp_all

lemma count_marked:
  assumes "distinct idx" "set idx \<subseteq> {0..<d}" "0 < d"
  shows "length (filter (\<lambda>j. j \<in> insert 0 (set idx)) [0..<d]) =
         (if 0 \<in> set idx then length idx else Suc (length idx))"
proof -
  have "length (filter (\<lambda>j. j \<in> insert 0 (set idx)) [0..<d]) =
        card ({j. j \<in> insert 0 (set idx)} \<inter> set [0..<d])"
    by (rule distinct_length_filter) simp
  also have "{j. j \<in> insert 0 (set idx)} \<inter> set [0..<d] = insert 0 (set idx)"
    using assms by auto
  also have "card (insert 0 (set idx)) = (if 0 \<in> set idx then length idx else Suc (length idx))"
    using assms(1) by (simp add: distinct_card insert_absorb)
  finally show ?thesis .
qed

lemma complement_idx_eq:
  assumes "distinct idx" "set idx \<subseteq> {0..<dim'}"
  shows "complement_idx idx dim' = Inr (filter (\<lambda>j. j \<notin> set idx) [0..<dim'])"
proof (cases "dim' = 0")
  case True
  then have "idx = []" using assms(2) by simp
  then show ?thesis using True by (simp add: complement_idx_def)
next
  case False
  then have pos: "0 < dim'" by simp
  let ?S = "insert 0 (set idx)"
  let ?rest = "filter (\<lambda>j. j \<notin> set idx) [Suc 0..<dim']"
  have c: "complement_idx idx dim' =
        Inr (drop (length idx) (replicate (length (filter (\<lambda>j. j \<in> ?S) [0..<dim'])) 0 @
               filter (\<lambda>j. j \<notin> ?S) [0..<dim']))"
    by (simp only: complement_idx_def Let_def masked_arange [OF assms(2)] sort_masked sum.case)
  have whole: "[0..<dim'] = 0 # [Suc 0..<dim']" using pos by (simp add: upt_conv_Cons)
  have F: "filter (\<lambda>j. j \<notin> ?S) [0..<dim'] = ?rest" by (rule filter_not_insert0)
  note k = count_marked [OF assms pos]
  show ?thesis
  proof (cases "0 \<in> set idx")
    case True
    have k': "length (filter (\<lambda>j. j \<in> ?S) [0..<dim']) = length idx"
      using k True by (simp only: if_True)
    have "complement_idx idx dim' = Inr (drop (length idx) (replicate (length idx) 0 @ ?rest))"
      using c unfolding k' F .
    moreover have "filter (\<lambda>j. j \<notin> set idx) [0..<dim'] = ?rest"
      using True by (subst whole) simp
    ultimately show ?thesis by simp
  next
    case False
    have k': "length (filter (\<lambda>j. j \<in> ?S) [0..<dim']) = Suc (length idx)"
      using k False by (simp only: if_False)
    have "complement_idx idx dim' = Inr (0 # ?rest)"
      using c unfolding k' F drop_replicate_Suc_append .
    moreover have "filter (\<lambda>j. j \<notin> set idx) [0..<dim'] = 0 # ?rest"
      using False by (subst whole) simp
    ultimately show ?thesis by simp
  qed
qed

lemma complement_idx_props:
  assumes "distinct idx" "set idx \<subseteq> {0..<dim'}"
  shows "\<exists>c. complement_idx idx dim' = Inr c \<and> sorted c \<and> distinct c \<and>
             set c = {0..<dim'} - set idx \<and> length idx + length c = dim'"
proof -
  let ?c = "filter (\<lambda>j. j \<notin> set idx) [0..<dim']"
  have "length (filter (\<lambda>j. j \<in> set idx) [0..<dim']) = card ({j. j \<in> set idx} \<inter> set [0..<dim'])"
    by (rule distinct_length_filter) simp
  also have "{j. j \<in> set idx} \<inter> set [0..<dim'] = set idx" using assms(2) by auto
  finally have "length (filter (\<lambda>j. j \<in> set idx) [0..<dim']) = length idx"
    using assms(1) by (simp add: distinct_card)
  moreover have "length (filter (\<lambda>j. j \<in> set idx) [0..<dim']) + length ?c = length [0..<dim']"
    by (rule sum_length_filter_compl)
  ultimately have "length idx + length ?c = dim'" by simp
  moreover have "sorted ?c" by (simp add: sorted_wrt_filter)
  moreover have "set ?c = {0..<dim'} - set idx" by auto
  ultimately show ?thesis using complement_idx_eq [OF assms] by simp
qed

text \<open>
  C2. For every \<open>dim\<close> (zero included) and every index list \<open>idx\<close> of distinct values
  below \<open>dim\<close>, whether or not the value \<open>0\<close> is among them, \<open>complement_idx idx dim\<close>
  returns the indices below \<open>dim\<close> that are not in \<open>idx\<close>, in ascending order. So the
  kept and the discarded indices are disjoint, their union is \<open>{0..<dim}\<close>, and their
  numbers add up to \<open>dim\<close> (\<open>dim = N - 1\<close> at a reducing stage).
\<close>

theorem complement_idx_is_set_complement:
  assumes "distinct idx" and "set idx \<subseteq> {0..<dim'}"
  shows "\<exists>discard. complement_idx idx dim' = Inr discard \<and>
           discard = filter (\<lambda>j. j \<notin> set idx) [0..<dim'] \<and>
           sorted discard \<and> distinct discard \<and>
           set discard = {0..<dim'} - set idx \<and>
           set idx \<inter> set discard = {} \<and>
           set idx \<union> set discard = {0..<dim'} \<and>
           length idx + length discard = dim'"
proof -
  obtain c where c: "complement_idx idx dim' = Inr c" "sorted c" "distinct c"
      "set c = {0..<dim'} - set idx" "length idx + length c = dim'"
    using complement_idx_props [OF assms] by blast
  have "c = filter (\<lambda>j. j \<notin> set idx) [0..<dim']"
    using c(1) complement_idx_eq [OF assms] by simp
  moreover have "set idx \<inter> set c = {}" using c(4) by auto
  moreover have "set idx \<union> set c = {0..<dim'}" using c(4) assms(2) by auto
  ultimately show ?thesis using c by blast
qed

theorem complement_idx_is_set_complement_witness:
  "\<exists>discard. complement_idx [2, 0] 5 = Inr discard \<and>
           discard = filter (\<lambda>j. j \<notin> set [2, 0]) [0..<5] \<and>
           sorted discard \<and> distinct discard \<and>
           set discard = {0..<5} - set [2, 0] \<and>
           set [2, 0] \<inter> set discard = {} \<and>
           set [2, 0] \<union> set discard = {0..<5} \<and>
           length [2, 0 :: nat] + length discard = 5"
  by (rule complement_idx_is_set_complement) auto

text \<open>
  C9. The complement of the complement of a list of distinct indices below \<open>dim\<close> has
  the same elements as the list (in ascending order, whatever the order of the list).
\<close>

theorem complement_idx_involution:
  assumes "distinct kept_idx" and "set kept_idx \<subseteq> {0..<dim'}"
  shows "\<exists>c c2. complement_idx kept_idx dim' = Inr c \<and> complement_idx c dim' = Inr c2 \<and>
           set c2 = set kept_idx"
proof -
  obtain c where c: "complement_idx kept_idx dim' = Inr c" "distinct c"
      "set c = {0..<dim'} - set kept_idx"
    using complement_idx_props [OF assms] by blast
  have sub: "set c \<subseteq> {0..<dim'}" using c(3) by auto
  obtain c2 where c2: "complement_idx c dim' = Inr c2" "set c2 = {0..<dim'} - set c"
    using complement_idx_props [OF c(2) sub] by blast
  have "set c2 = set kept_idx" using c2(2) c(3) assms(2) by auto
  then show ?thesis using c(1) c2(1) by blast
qed

theorem complement_idx_involution_witness:
  "\<exists>c c2. complement_idx [3, 0, 1] 6 = Inr c \<and> complement_idx c 6 = Inr c2 \<and>
           set c2 = set [3, 0, 1]"
  by (rule complement_idx_involution) auto

subsection \<open>The selector and the reduction\<close>

lemma gather_ok:
  "set index \<subseteq> {0..<length src} \<Longrightarrow> gather src index = Inr (map (\<lambda>i. src ! i) index)"
  by (auto simp: gather_def list_all_iff)

lemma head_mean_length:
  "rows \<noteq> [] \<Longrightarrow> length (head_mean rows) = length (hd rows)"
  by (cases rows) (simp_all add: head_mean_def)

lemma cls_attn_ok:
  assumes "attn_shape N attn" "0 < N"
  shows "\<exists>s. cls_attn_of attn = Inr s \<and> length s = N - 1"
proof -
  from assms(1) obtain h hs where a: "attn = h # hs" and h: "length h = N"
      and all: "list_all (\<lambda>h. length h = N \<and> list_all (\<lambda>r. length r = N) h) attn"
    by (cases attn) (auto simp: attn_shape_def)
  have ne: "list_all (\<lambda>h. h \<noteq> []) attn"
    using all assms(2) by (auto simp: list_all_iff)
  have "h ! 0 \<in> set h" using h assms(2) by simp
  then have "length (h ! 0) = N" using all a by (auto simp: list_all_iff)
  then have "length (head_mean (map (\<lambda>h. drop 1 (h ! 0)) attn)) = N - 1"
    using a by (simp add: head_mean_length)
  then show ?thesis using ne by (simp add: cls_attn_of_def)
qed

lemma left_tokens_bounds:
  assumes "0 < kr" "kr < 1" "left_tokens_of kr N \<noteq> int N - 1" "0 < N"
  shows "1 \<le> left_tokens_of kr N" and "left_tokens_of kr N < int N - 1"
proof -
  have le: "left_tokens_of kr N \<le> int N - 1"
  proof -
    have "kr * (real N - 1) \<le> real N - 1" using assms by (simp add: mult_left_le_one_le)
    then have "\<lceil>kr * (real N - 1)\<rceil> \<le> \<lceil>real N - 1\<rceil>" by (rule ceiling_mono)
    also have "\<lceil>real N - 1\<rceil> = int N - 1" by simp
    finally show ?thesis by (simp add: left_tokens_of_def)
  qed
  then show "left_tokens_of kr N < int N - 1" using assms(3) by simp
  have "N \<noteq> 1" using assms(3) by (auto simp: left_tokens_of_def)
  then have "0 < kr * (real N - 1)" using assms by simp
  then show "1 \<le> left_tokens_of kr N" by (simp add: left_tokens_of_def)
qed


lemma insort_key_ranked:
  fixes f :: "nat \<Rightarrow> real"
  assumes "sorted_wrt (\<lambda>i j. f i < f j \<or> (f i = f j \<and> i < j)) ys" "\<forall>y\<in>set ys. x < y"
  shows "sorted_wrt (\<lambda>i j. f i < f j \<or> (f i = f j \<and> i < j)) (insort_key f x ys)"
  using assms
proof (induction ys)
  case Nil
  then show ?case by simp
next
  case (Cons y ys)
  show ?case
  proof (cases "f x \<le> f y")
    case True
    have "\<forall>z\<in>set (y # ys). f x < f z \<or> (f x = f z \<and> x < z)"
      using True Cons.prems by fastforce
    then show ?thesis using True Cons.prems by simp
  next
    case False
    have "sorted_wrt (\<lambda>i j. f i < f j \<or> (f i = f j \<and> i < j)) (insort_key f x ys)"
      using Cons by simp
    moreover have "\<forall>z\<in>set (insort_key f x ys). f y < f z \<or> (f y = f z \<and> y < z)"
      using False Cons.prems by (auto simp: set_insort_key)
    ultimately show ?thesis using False by simp
  qed
qed

lemma sort_key_ranked:
  fixes f :: "nat \<Rightarrow> real"
  assumes "sorted_wrt (<) xs"
  shows "sorted_wrt (\<lambda>i j. f i < f j \<or> (f i = f j \<and> i < j)) (sort_key f xs)"
  using assms
proof (induction xs)
  case Nil
  then show ?case by simp
next
  case (Cons x xs)
  have "\<forall>y\<in>set (sort_key f xs). x < y" using Cons.prems by simp
  then show ?case using Cons by (simp add: insort_key_ranked)
qed

lemma topk_ok:
  assumes "k \<le> length s"
  shows "\<exists>idx. topk s k = Inr idx \<and> length idx = k \<and> distinct idx \<and>
           set idx \<subseteq> {0..<length s} \<and>
           sorted_wrt (\<lambda>i j. s ! j < s ! i \<or> (s ! i = s ! j \<and> i < j)) idx \<and>
           (\<forall>i\<in>set idx. \<forall>j\<in>{0..<length s} - set idx. s ! j \<le> s ! i)"
proof -
  let ?f = "\<lambda>i. - (s ! i)"
  let ?all = "sort_key ?f [0..<length s]"
  let ?R = "\<lambda>i j. ?f i < ?f j \<or> (?f i = ?f j \<and> i < j)"
  have R: "sorted_wrt ?R ?all"
    by (rule sort_key_ranked) (simp add: sorted_wrt_upt strict_sorted_iff)
  have d: "distinct ?all" and st: "set ?all = {0..<length s}" and len: "length ?all = length s"
    by simp_all
  have split: "?all = take k ?all @ drop k ?all" by simp
  have "sorted_wrt ?R (take k ?all @ drop k ?all)" using R by simp
  then have t: "sorted_wrt ?R (take k ?all)"
    and cross: "\<forall>i\<in>set (take k ?all). \<forall>j\<in>set (drop k ?all). ?R i j"
    unfolding sorted_wrt_append by blast+
  have "distinct (take k ?all @ drop k ?all)" using d by simp
  then have disj: "set (take k ?all) \<inter> set (drop k ?all) = {}" by (simp only: distinct_append)
  have "set (take k ?all) \<union> set (drop k ?all) = {0..<length s}"
    using st by (metis set_append split)
  then have rest: "{0..<length s} - set (take k ?all) \<subseteq> set (drop k ?all)" by blast
  have "\<forall>i\<in>set (take k ?all). \<forall>j\<in>{0..<length s} - set (take k ?all). s ! j \<le> s ! i"
    using cross rest by fastforce
  moreover have "sorted_wrt (\<lambda>i j. s ! j < s ! i \<or> (s ! i = s ! j \<and> i < j)) (take k ?all)"
    using t by (rule sorted_wrt_mono_rel [rotated]) auto
  moreover have "set (take k ?all) \<subseteq> {0..<length s}" using st set_take_subset by fast
  moreover have "distinct (take k ?all)" using d by (rule distinct_take)
  moreover have "length (take k ?all) = k" using len assms by simp
  ultimately show ?thesis using assms by (simp add: topk_def)
qed

lemma extra_token_gathered:
  "extra_token_of (map f compl) (map g compl) = (\<Sum>j\<leftarrow>compl. g j *\<^sub>R f j)"
  by (induction compl) (simp_all add: extra_token_of_def)

lemma reduce_tokens_reducing:
  fixes x :: "'v::real_vector list"
  assumes "0 < kr" "kr < 1" "length x = N" "0 < N" "attn_shape N attn"
    "left_tokens_of kr N \<noteq> int N - 1"
  shows "\<exists>s idx compl. cls_attn_of attn = Inr s \<and> length s = N - 1 \<and>
           topk s (nat (left_tokens_of kr N)) = Inr idx \<and>
           complement_idx idx (N - 1) = Inr compl \<and>
           reduce_tokens kr N x attn =
             Inr (take 1 x @ map (\<lambda>i. x ! Suc i) idx @ [\<Sum>j\<leftarrow>compl. s ! j *\<^sub>R x ! Suc j],
                  Bound (map int idx @ [- 1]) compl)"
proof -
  note b = left_tokens_bounds [OF assms(1,2,6,4)]
  obtain s where s: "cls_attn_of attn = Inr s" "length s = N - 1"
    using cls_attn_ok [OF assms(5,4)] by blast
  have k: "nat (left_tokens_of kr N) \<le> length s" using b s(2) by linarith
  obtain idx where idx: "topk s (nat (left_tokens_of kr N)) = Inr idx" "distinct idx"
      "set idx \<subseteq> {0..<N - 1}"
    using topk_ok [OF k] s(2) by auto
  obtain compl where compl: "complement_idx idx (N - 1) = Inr compl"
      "set compl = {0..<N - 1} - set idx"
    using complement_idx_props [OF idx(2,3)] by blast
  have csub: "set compl \<subseteq> {0..<N - 1}" using compl(2) by auto
  have g: "gather (drop 1 x) js = Inr (map (\<lambda>i. x ! Suc i) js)" if "set js \<subseteq> {0..<N - 1}" for js
  proof -
    have "set js \<subseteq> {0..<length (drop 1 x)}" using that assms(3) by simp
    then have "gather (drop 1 x) js = Inr (map (\<lambda>i. drop 1 x ! i) js)" by (rule gather_ok)
    moreover have "map (\<lambda>i. drop 1 x ! i) js = map (\<lambda>i. x ! Suc i) js"
      using that assms(3) by (intro map_cong) auto
    ultimately show ?thesis by simp
  qed
  note g1 = g [OF idx(3)] and g2 = g [OF csub]
  have g3: "gather s compl = Inr (map (\<lambda>i. s ! i) compl)"
    using csub by (intro gather_ok) (simp add: s(2))
  have "reduce_tokens kr N x attn =
          Inr (take 1 x @ map (\<lambda>i. x ! Suc i) idx @
                 [extra_token_of (map (\<lambda>i. x ! Suc i) compl) (map (\<lambda>i. s ! i) compl)],
               Bound (map int idx @ [- 1]) compl)"
    using assms(2,6) b(1) by (simp add: reduce_tokens_def err_bind_def Let_def s(1) idx(1) g1 compl(1) g2 g3 del: One_nat_def)
  then show ?thesis using s idx(1) compl(1) by (simp add: extra_token_gathered)
qed

lemma ex_shape: "attn_shape 4 ex_attn"
  by (simp add: attn_shape_def ex_attn_def)

text \<open>
  C1. At a stage that reduces (keep rate strictly between \<open>0\<close> and \<open>1\<close>, and
  \<open>left_tokens \<noteq> N - 1\<close>, so that the selector runs), the selector keeps exactly
  \<open>\<lceil>keep_rate * (N - 1)\<rceil>\<close> distinct indices of non-prefix tokens, in descending order of
  their scores, equal scores in their original order, every kept score at least every
  discarded one; the discarded indices are the complement of the kept ones in
  \<open>{0..<N - 1}\<close>, in ascending order of index. With \<open>N = 197\<close> and keep rate \<open>0.7\<close>,
  \<open>left_tokens = 138\<close>.
\<close>

theorem topk_selection:
  fixes x :: "'v::real_vector list"
  assumes "0 < kr" and "kr < 1" and "length x = N" and "0 < N" and "attn_shape N attn"
    and "left_tokens_of kr N \<noteq> int N - 1"
  shows "(\<exists>scores kept discard out.
            cls_attn_of attn = Inr scores \<and>
            reduce_tokens kr N x attn = Inr (out, Bound (map int kept @ [- 1]) discard) \<and>
            int (length kept) = \<lceil>kr * (real N - 1)\<rceil> \<and>
            distinct kept \<and> set kept \<subseteq> {0..<N - 1} \<and>
            sorted_wrt (\<lambda>i j. scores ! j < scores ! i \<or> (scores ! i = scores ! j \<and> i < j)) kept \<and>
            (\<forall>i\<in>set kept. \<forall>j\<in>set discard. scores ! j \<le> scores ! i) \<and>
            discard = filter (\<lambda>j. j \<notin> set kept) [0..<N - 1] \<and>
            sorted discard \<and> distinct discard \<and>
            set discard = {0..<N - 1} - set kept \<and>
            length kept + length discard = N - 1) \<and>
         left_tokens_of (7 / 10) 197 = 138"
proof
  note b = left_tokens_bounds [OF assms(1,2,6,4)]
  obtain s idx compl where r: "cls_attn_of attn = Inr s" "length s = N - 1"
      "topk s (nat (left_tokens_of kr N)) = Inr idx" "complement_idx idx (N - 1) = Inr compl"
      "reduce_tokens kr N x attn =
         Inr (take 1 x @ map (\<lambda>i. x ! Suc i) idx @ [\<Sum>j\<leftarrow>compl. s ! j *\<^sub>R x ! Suc j],
              Bound (map int idx @ [- 1]) compl)"
    using reduce_tokens_reducing [OF assms] by blast
  have k: "nat (left_tokens_of kr N) \<le> length s" using b r(2) by linarith
  have t: "length idx = nat (left_tokens_of kr N)" "distinct idx" "set idx \<subseteq> {0..<N - 1}"
      "sorted_wrt (\<lambda>i j. s ! j < s ! i \<or> (s ! i = s ! j \<and> i < j)) idx"
      "\<forall>i\<in>set idx. \<forall>j\<in>{0..<N - 1} - set idx. s ! j \<le> s ! i"
    using topk_ok [OF k] r(3) r(2) by auto
  have c: "compl = filter (\<lambda>j. j \<notin> set idx) [0..<N - 1]" "sorted compl" "distinct compl"
      "set compl = {0..<N - 1} - set idx" "length idx + length compl = N - 1"
    using complement_idx_props [OF t(2,3)] complement_idx_eq [OF t(2,3)] r(4) by auto
  have "int (length idx) = \<lceil>kr * (real N - 1)\<rceil>"
    using t(1) b(1) by (simp add: left_tokens_of_def)
  moreover have "\<forall>i\<in>set idx. \<forall>j\<in>set compl. s ! j \<le> s ! i" using t(5) c(4) by simp
  ultimately show "\<exists>scores kept discard out.
            cls_attn_of attn = Inr scores \<and>
            reduce_tokens kr N x attn = Inr (out, Bound (map int kept @ [- 1]) discard) \<and>
            int (length kept) = \<lceil>kr * (real N - 1)\<rceil> \<and>
            distinct kept \<and> set kept \<subseteq> {0..<N - 1} \<and>
            sorted_wrt (\<lambda>i j. scores ! j < scores ! i \<or> (scores ! i = scores ! j \<and> i < j)) kept \<and>
            (\<forall>i\<in>set kept. \<forall>j\<in>set discard. scores ! j \<le> scores ! i) \<and>
            discard = filter (\<lambda>j. j \<notin> set kept) [0..<N - 1] \<and>
            sorted discard \<and> distinct discard \<and>
            set discard = {0..<N - 1} - set kept \<and>
            length kept + length discard = N - 1"
    using r(1,5) t(2,3,4) c by blast
  show "left_tokens_of (7 / 10) 197 = 138" by (simp add: left_tokens_of_def)
qed

theorem topk_selection_witness:
  "(\<exists>scores kept discard out.
            cls_attn_of ex_attn = Inr scores \<and>
            reduce_tokens (1 / 2) 4 ex_x ex_attn = Inr (out, Bound (map int kept @ [- 1]) discard) \<and>
            int (length kept) = \<lceil>1 / 2 * (real 4 - 1)\<rceil> \<and>
            distinct kept \<and> set kept \<subseteq> {0..<4 - 1} \<and>
            sorted_wrt (\<lambda>i j. scores ! j < scores ! i \<or> (scores ! i = scores ! j \<and> i < j)) kept \<and>
            (\<forall>i\<in>set kept. \<forall>j\<in>set discard. scores ! j \<le> scores ! i) \<and>
            discard = filter (\<lambda>j. j \<notin> set kept) [0..<4 - 1] \<and>
            sorted discard \<and> distinct discard \<and>
            set discard = {0..<4 - 1} - set kept \<and>
            length kept + length discard = 4 - 1) \<and>
         left_tokens_of (7 / 10) 197 = 138"
  by (rule topk_selection) (simp_all add: ex_shape ex_x_def left_tokens_of_def)

lemma ex_reduce:
  "reduce_tokens (1 / 2) 4 ex_x ex_attn = Inr ([10, 20, 40, 6], Bound [0, 2, - 1] [1])"
  by code_simp



subsection \<open>The rebuilt sequence\<close>

text \<open>
  C4, as the code has it. A block knows of one prefix token only: at a stage that
  reduces, the rebuilt sequence is the token at position \<open>0\<close>, then the kept tokens in
  the selector's order (descending score, not the original positions), then the fused
  token, and its length is \<open>1 + left_tokens + 1\<close>. Every position from \<open>1\<close> on is scored
  and may be kept or discarded, register tokens included.
\<close>

theorem rebuilt_sequence_one_prefix:
  fixes x :: "'v::real_vector list"
  assumes "0 < kr" and "kr < 1" and "length x = N" and "0 < N" and "attn_shape N attn"
    and "left_tokens_of kr N \<noteq> int N - 1"
  shows "\<exists>scores kept discard fused.
            cls_attn_of attn = Inr scores \<and>
            reduce_tokens kr N x attn =
              Inr ([x ! 0] @ map (\<lambda>i. x ! Suc i) kept @ [fused],
                   Bound (map int kept @ [- 1]) discard) \<and>
            sorted_wrt (\<lambda>i j. scores ! j < scores ! i \<or> (scores ! i = scores ! j \<and> i < j)) kept \<and>
            set kept \<subseteq> {0..<N - 1} \<and>
            fused = (\<Sum>j\<leftarrow>discard. scores ! j *\<^sub>R x ! Suc j) \<and>
            int (length ([x ! 0] @ map (\<lambda>i. x ! Suc i) kept @ [fused])) =
              1 + left_tokens_of kr N + 1"
proof -
  note b = left_tokens_bounds [OF assms(1,2,6,4)]
  obtain s idx compl where r: "cls_attn_of attn = Inr s" "length s = N - 1"
      "topk s (nat (left_tokens_of kr N)) = Inr idx"
      "reduce_tokens kr N x attn =
         Inr (take 1 x @ map (\<lambda>i. x ! Suc i) idx @ [\<Sum>j\<leftarrow>compl. s ! j *\<^sub>R x ! Suc j],
              Bound (map int idx @ [- 1]) compl)"
    using reduce_tokens_reducing [OF assms] by blast
  have k: "nat (left_tokens_of kr N) \<le> length s" using b r(2) by linarith
  have t: "length idx = nat (left_tokens_of kr N)" "set idx \<subseteq> {0..<N - 1}"
      "sorted_wrt (\<lambda>i j. s ! j < s ! i \<or> (s ! i = s ! j \<and> i < j)) idx"
    using topk_ok [OF k] r(3) r(2) by auto
  have hd: "take 1 x = [x ! 0]" using assms(3,4) by (cases x) simp_all
  have "int (length ([x ! 0] @ map (\<lambda>i. x ! Suc i) idx @ [\<Sum>j\<leftarrow>compl. s ! j *\<^sub>R x ! Suc j])) =
        1 + left_tokens_of kr N + 1"
    using t(1) b(1) by simp
  then show ?thesis using r(1,4) t(2,3) unfolding hd by blast
qed

theorem rebuilt_sequence_one_prefix_witness:
  "\<exists>scores kept discard fused.
            cls_attn_of ex_attn = Inr scores \<and>
            reduce_tokens (1 / 2) 4 ex_x ex_attn =
              Inr ([ex_x ! 0] @ map (\<lambda>i. ex_x ! Suc i) kept @ [fused],
                   Bound (map int kept @ [- 1]) discard) \<and>
            sorted_wrt (\<lambda>i j. scores ! j < scores ! i \<or> (scores ! i = scores ! j \<and> i < j)) kept \<and>
            set kept \<subseteq> {0..<4 - 1} \<and>
            fused = (\<Sum>j\<leftarrow>discard. scores ! j *\<^sub>R ex_x ! Suc j) \<and>
            int (length ([ex_x ! 0] @ map (\<lambda>i. ex_x ! Suc i) kept @ [fused])) =
              1 + left_tokens_of (1 / 2) 4 + 1"
  by (rule rebuilt_sequence_one_prefix) (simp_all add: ex_shape ex_x_def left_tokens_of_def)

text \<open>
  With a class token and one register token (\<open>num_prefix_tokens = 2\<close>) the register
  token at position \<open>1\<close>, scored lowest, is discarded into the fused token, and the new
  length is \<open>4\<close>, not \<open>num_prefix_tokens + left_tokens + 1 = 5\<close>.
\<close>

lemma register_example_reduce:
  "reduce_tokens (1 / 2) 4 ex_x
        [[[4/10, 1/10, 3/10, 3/10], [1/4, 1/4, 1/4, 1/4], [1/4, 1/4, 1/4, 1/4], [1/4, 1/4, 1/4, 1/4]]]
   = Inr ([10, 30, 40, 2], Bound [1, 2, - 1] [0])"
  by code_simp

theorem register_token_discarded_counterexample:
  "num_prefix_tokens_of True 1 = 2 \<and>
   left_tokens_of (1 / 2) 4 = 2 \<and>
   ex_x = [10, 20, 30, 40] \<and>
   reduce_tokens (1 / 2) 4 ex_x
        [[[4/10, 1/10, 3/10, 3/10], [1/4, 1/4, 1/4, 1/4], [1/4, 1/4, 1/4, 1/4], [1/4, 1/4, 1/4, 1/4]]]
     = Inr ([10, 30, 40, 2], Bound [1, 2, - 1] [0]) \<and>
   take (num_prefix_tokens_of True 1) [10, 30, 40, 2 :: real] \<noteq> take (num_prefix_tokens_of True 1) ex_x \<and>
   length [10, 30, 40, 2 :: real] \<noteq> num_prefix_tokens_of True 1 + nat (left_tokens_of (1 / 2) 4) + 1"
proof (intro conjI)
  show "reduce_tokens (1 / 2) 4 ex_x
        [[[4/10, 1/10, 3/10, 3/10], [1/4, 1/4, 1/4, 1/4], [1/4, 1/4, 1/4, 1/4], [1/4, 1/4, 1/4, 1/4]]]
     = Inr ([10, 30, 40, 2], Bound [1, 2, - 1] [0])"
    by (rule register_example_reduce)
qed (simp_all add: num_prefix_tokens_of_def left_tokens_of_def ex_x_def)

subsection \<open>Stages that do not reduce\<close>

text \<open>
  C7. With keep rate \<open>1\<close> the reduction step returns the sequence it was given, whatever
  the attention weights are (they are not read), with \<^verbatim>\<open>index = None\<close>; the block is
  then the two residual sublayers alone, its sequence has the length of the input, and
  it returns \<open>None\<close> for the kept and for the discarded indices.
\<close>

theorem keep_rate_one_skips_reduction:
  "reduce_tokens 1 N x attn = Inr (x, IndexNone) \<and>
   Block_forward (blk\<lparr>keep_rate := 1\<rparr>) x =
     err_bind (add_residual x (fst (attn_branch blk x))) (\<lambda>x1.
     err_bind (add_residual x1 (mlp_branch blk x1)) (\<lambda>x3.
     Inr (x3, int (length x3) - 1, None, None)))"
  by (simp add: reduce_tokens_def Block_forward_def err_bind_def Let_def split: prod.splits sum.splits)

lemma ex_shape_ok: "shape_ok ex_attn_sub ex_mlp_sub"
  by (simp add: shape_ok_def ex_attn_sub_def ex_mlp_sub_def attn_shape_def list_all_iff)

text \<open>
  C10. With a keep rate below \<open>1\<close> and \<open>left_tokens = N - 1\<close> no branch of lines 205-227
  assigns \<^verbatim>\<open>index\<close>, and line 232 raises \<^verbatim>\<open>UnboundLocalError\<close>: the block does not
  return the unchanged sequence with \<open>None\<close> indices.
\<close>

theorem index_unbound_when_all_tokens_kept:
  assumes "shape_ok (attn_branch blk) (mlp_branch blk)" and "keep_rate blk < 1"
    and "left_tokens_of (keep_rate blk) (length x) = int (length x) - 1"
  shows "Block_forward blk x = Inl UnboundLocalError"
proof -
  obtain tmp attn where a: "attn_branch blk x = (tmp, attn)" by (cases "attn_branch blk x")
  have l: "length tmp = length x" using assms(1) a by (auto simp: shape_ok_def dest: spec [of _ x])
  have m: "length (mlp_branch blk y) = length y" for y using assms(1) by (simp add: shape_ok_def)
  show ?thesis
    using assms(2,3) by (simp add: Block_forward_def a add_residual_def l m reduce_tokens_def err_bind_def Let_def)
qed

theorem index_unbound_when_all_tokens_kept_witness:
  "Block_forward (ex_block (9 / 10)) [1, 2, 3, 4, 5, 6, 7, 8, 9, 10] = Inl UnboundLocalError"
  by (rule index_unbound_when_all_tokens_kept)
     (simp_all add: ex_block_def ex_shape_ok left_tokens_of_def)

subsection \<open>Sequence lengths through the stages\<close>

lemma Block_forward_keeps:
  fixes x :: "'v::real_vector list"
  assumes "shape_ok (attn_branch blk) (mlp_branch blk)" "\<not> keep_rate blk < 1"
  shows "\<exists>out. Block_forward blk x = Inr (out, int (length x) - 1, None, None) \<and>
           length out = length x"
proof -
  obtain tmp attn where a: "attn_branch blk x = (tmp, attn)" by (cases "attn_branch blk x")
  have l: "length tmp = length x" using assms(1) a by (auto simp: shape_ok_def dest: spec [of _ x])
  have m: "length (mlp_branch blk y) = length y" for y using assms(1) by (simp add: shape_ok_def)
  show ?thesis
    using assms(2)
    by (simp add: Block_forward_def a add_residual_def l m reduce_tokens_def err_bind_def Let_def)
qed

lemma Block_forward_reduces:
  fixes x :: "'v::real_vector list"
  assumes "shape_ok (attn_branch blk) (mlp_branch blk)" "0 < keep_rate blk" "keep_rate blk < 1"
    "0 < length x" "left_tokens_of (keep_rate blk) (length x) \<noteq> int (length x) - 1"
  shows "\<exists>out idx compl. Block_forward blk x =
             Inr (out, left_tokens_of (keep_rate blk) (length x) + 1, Some idx, Some compl) \<and>
           length out = nat (left_tokens_of (keep_rate blk) (length x)) + 2"
proof -
  let ?N = "length x"
  obtain tmp attn where a: "attn_branch blk x = (tmp, attn)" by (cases "attn_branch blk x")
  have l: "length tmp = ?N" and sh: "attn_shape ?N attn"
    using assms(1) a by (auto simp: shape_ok_def dest: spec [of _ x])
  have m: "length (mlp_branch blk y) = length y" for y using assms(1) by (simp add: shape_ok_def)
  let ?x1 = "map2 (+) x tmp"
  have l1: "length ?x1 = ?N" using l by simp
  note b = left_tokens_bounds [OF assms(2,3,5,4)]
  obtain s idx compl where r:
      "reduce_tokens (keep_rate blk) ?N ?x1 attn =
         Inr (take 1 ?x1 @ map (\<lambda>i. ?x1 ! Suc i) idx @ [\<Sum>j\<leftarrow>compl. s ! j *\<^sub>R ?x1 ! Suc j],
              Bound (map int idx @ [- 1]) compl)"
      "cls_attn_of attn = Inr s" "length s = ?N - 1"
      "topk s (nat (left_tokens_of (keep_rate blk) ?N)) = Inr idx"
    using reduce_tokens_reducing [OF assms(2,3) l1 assms(4) sh assms(5)] by blast
  have k: "nat (left_tokens_of (keep_rate blk) ?N) \<le> length s" using b r(3) by linarith
  have li: "length idx = nat (left_tokens_of (keep_rate blk) ?N)"
    using topk_ok [OF k] r(4) by auto
  have "1 \<le> length ?x1" using l1 assms(4) by linarith
  then have t1: "length (take 1 ?x1) = 1" by (simp only: length_take min_absorb2)
  let ?x2 = "take 1 ?x1 @ map (\<lambda>i. ?x1 ! Suc i) idx @ [\<Sum>j\<leftarrow>compl. s ! j *\<^sub>R ?x1 ! Suc j]"
  have l2: "length ?x2 = nat (left_tokens_of (keep_rate blk) ?N) + 2"
    using t1 li by simp
  have "Block_forward blk x =
          Inr (map2 (+) ?x2 (mlp_branch blk ?x2), int (length (map2 (+) ?x2 (mlp_branch blk ?x2))) - 1,
               Some (map int idx @ [- 1]), Some compl)"
    by (simp add: Block_forward_def a add_residual_def l m r(1) err_bind_def Let_def
        del: One_nat_def length_append length_map)
  moreover have "length (map2 (+) ?x2 (mlp_branch blk ?x2)) = nat (left_tokens_of (keep_rate blk) ?N) + 2"
    using l2 m [of ?x2] by (simp del: One_nat_def)
  ultimately show ?thesis using b(1) by (simp del: One_nat_def)
qed

lemma stage_no_cache:
  "\<not> clc self \<Longrightarrow> Block_forward blk (tokens st) = Inr (out, n, a, b) \<Longrightarrow>
   stage self i blk st = Inr (st\<lparr>tokens := out\<rparr>)"
  by (simp add: stage_def recover_def accumulate_def err_bind_def)

lemma stages_lengths:
  fixes st :: "'v::real_vector loop_state"
  assumes "\<not> clc self"
  shows "list_all (\<lambda>b. shape_ok (attn_branch b) (mlp_branch b) \<and> 0 < keep_rate b) blks \<Longrightarrow>
         0 < length (tokens st) \<Longrightarrow>
         stage_lengths (map keep_rate blks) (length (tokens st)) = Some ls \<Longrightarrow>
         \<exists>tr. stages self i blks st = Inr tr \<and> map (\<lambda>s. length (tokens s)) tr = ls"
proof (induction blks arbitrary: i st ls)
  case Nil
  then show ?case by simp
next
  case (Cons blk blks)
  have ok: "shape_ok (attn_branch blk) (mlp_branch blk)" and pos: "0 < keep_rate blk"
    and rest: "list_all (\<lambda>b. shape_ok (attn_branch b) (mlp_branch b) \<and> 0 < keep_rate b) blks"
    using Cons.prems(1) by simp_all
  let ?N = "length (tokens st)"
  show ?case
  proof (cases "keep_rate blk < 1")
    case True
    have ne: "left_tokens_of (keep_rate blk) ?N \<noteq> int ?N - 1"
      using Cons.prems(3) True by (auto split: if_splits)
    let ?N' = "nat (left_tokens_of (keep_rate blk) ?N) + 2"
    obtain ls' where ls': "stage_lengths (map keep_rate blks) ?N' = Some ls'" "ls = ?N' # ls'"
      using Cons.prems(3) True ne by auto
    obtain out n a b where bf: "Block_forward blk (tokens st) = Inr (out, n, a, b)"
        and lo: "length out = ?N'"
      using Block_forward_reduces [OF ok pos True Cons.prems(2) ne] by blast
    have st1: "stage self i blk st = Inr (st\<lparr>tokens := out\<rparr>)"
      using stage_no_cache [OF assms bf] .
    have "\<exists>tr. stages self (Suc i) blks (st\<lparr>tokens := out\<rparr>) = Inr tr \<and>
               map (\<lambda>s. length (tokens s)) tr = ls'"
      using Cons.IH [OF rest, of "st\<lparr>tokens := out\<rparr>" ls' "Suc i"] ls'(1) lo by simp
    then show ?thesis using st1 ls'(2) lo by (auto simp: err_bind_def)
  next
    case False
    obtain ls' where ls': "stage_lengths (map keep_rate blks) ?N = Some ls'" "ls = ?N # ls'"
      using Cons.prems(3) False by auto
    obtain out where bf: "Block_forward blk (tokens st) = Inr (out, int ?N - 1, None, None)"
        and lo: "length out = ?N"
      using Block_forward_keeps [OF ok False] by blast
    have st1: "stage self i blk st = Inr (st\<lparr>tokens := out\<rparr>)"
      using stage_no_cache [OF assms bf] .
    have "\<exists>tr. stages self (Suc i) blks (st\<lparr>tokens := out\<rparr>) = Inr tr \<and>
               map (\<lambda>s. length (tokens s)) tr = ls'"
      using Cons.IH [OF rest, of "st\<lparr>tokens := out\<rparr>" ls' "Suc i"] ls'(1) lo Cons.prems(2) by simp
    then show ?thesis using st1 ls'(2) lo by (auto simp: err_bind_def)
  qed
qed

lemma init_blocks_ex:
  "list_all (\<lambda>r. 0 < r \<and> r \<le> 1) rs \<Longrightarrow>
   \<exists>blks. init_blocks sub i rs = Inr blks \<and> map keep_rate blks = rs \<and>
     list_all (\<lambda>b. \<exists>k. attn_branch b = fst (sub k) \<and> mlp_branch b = snd (sub k)) blks"
proof (induction rs arbitrary: i)
  case Nil
  then show ?case by simp
next
  case (Cons r rs)
  then obtain blks where "init_blocks sub (Suc i) rs = Inr blks" "map keep_rate blks = rs"
      "list_all (\<lambda>b. \<exists>k. attn_branch b = fst (sub k) \<and> mlp_branch b = snd (sub k)) blks"
    by fastforce
  then show ?case using Cons.prems by (auto simp: Block_init_def err_bind_def)
qed

lemma init_blocks_ok:
  assumes "list_all (\<lambda>r. 0 < r \<and> r \<le> 1) rs"
  obtains blks where "init_blocks sub i rs = Inr blks" "map keep_rate blks = rs"
    "list_all (\<lambda>b. \<exists>k. attn_branch b = fst (sub k) \<and> mlp_branch b = snd (sub k)) blks"
  using init_blocks_ex [OF assms] by blast

lemma stages_lengths_ok:
  fixes st :: "'v::real_vector loop_state"
  assumes "\<not> clc self"
    "list_all (\<lambda>b. shape_ok (attn_branch b) (mlp_branch b) \<and> 0 < keep_rate b) blks"
    "0 < length (tokens st)"
    "stage_lengths (map keep_rate blks) (length (tokens st)) = Some ls"
  obtains tr where "stages self i blks st = Inr tr" "map (\<lambda>s. length (tokens s)) tr = ls"
  using stages_lengths [OF assms] by blast

lemma token_ratio_full_example: "set_token_ratio (replicate 12 1) (zip [3, 6, 9] [9 / 10, 9 / 10, 9 / 10]) =
   Inr [1, 1, 1, 9 / 10, 1, 1, 9 / 10, 1, 1, 9 / 10, 1, 1]"
  by code_simp

lemma stage_lengths_example: "stage_lengths [1, 1, 1, 9 / 10, 1, 1, 9 / 10, 1, 1, 9 / 10, 1, 1] 197 =
   Some [197, 197, 197, 179, 179, 179, 163, 163, 163, 148, 148, 148]"
  by (simp add: left_tokens_of_def)


lemma EViT_init_no_cache:
  assumes "length (arg_keep_rate args) = length (arg_reduction_loc args)"
    "length (arg_keep_rate args) \<noteq> 1"
    "set_token_ratio (replicate (arg_depth args) 1)
       (zip (arg_reduction_loc args) (arg_keep_rate args)) = Inr full"
    "init_blocks (arg_sublayers args) 0 full = Inr blks"
    "\<not> arg_clc args"
  shows "\<exists>model. EViT_init args = Inr model \<and> blocks model = blks \<and> \<not> clc model \<and>
           num_prefix_tokens model =
             num_prefix_tokens_of (arg_class_token args) (arg_reg_tokens args)"
  using assms by (simp add: EViT_init_def Let_def err_bind_def)

text \<open>
  C5. For \<open>depth = 12\<close>, \<open>reduction_loc = [3, 6, 9]\<close>, keep rates \<open>0.9\<close>, one prefix
  token, the cache off and a sequence of \<open>197\<close> tokens, with sublayers that keep the
  shapes: construction succeeds, the forward pass runs through all twelve stages, and
  the lengths after the stages are \<open>197\<close> for stages 0-2, \<open>179 = 1 + 177 + 1\<close> from
  stage 3 (\<open>\<lceil>0.9 * 196\<rceil> = 177\<close>), \<open>163 = 1 + 161 + 1\<close> from stage 6
  (\<open>\<lceil>0.9 * 178\<rceil> = 161\<close>) and \<open>148 = 1 + 146 + 1\<close> from stage 9
  (\<open>\<lceil>0.9 * 162\<rceil> = 146\<close>); the other stages leave the length unchanged.
\<close>

theorem length_trajectory:
  fixes x0 :: "'v::real_vector list"
  assumes "arg_depth args = 12" and "arg_reduction_loc args = [3, 6, 9]"
    and "arg_keep_rate args = [9 / 10, 9 / 10, 9 / 10]"
    and "arg_class_token args" and "arg_reg_tokens args = 0"
    and "\<not> arg_clc args"
    and "\<forall>i. shape_ok (fst (arg_sublayers args i)) (snd (arg_sublayers args i))"
    and "length x0 = 197"
  shows "\<exists>model trace.
           EViT_init args = Inr model \<and> num_prefix_tokens model = 1 \<and>
           forward_blocks model x0 = Inr trace \<and>
           map (\<lambda>st. length (tokens st)) trace =
             [197, 197, 197, 179, 179, 179, 163, 163, 163, 148, 148, 148] \<and>
           left_tokens_of (9 / 10) 197 = 177 \<and> 179 = 1 + 177 + (1::nat) \<and>
           left_tokens_of (9 / 10) 179 = 161 \<and> 163 = 1 + 161 + (1::nat) \<and>
           left_tokens_of (9 / 10) 163 = 146 \<and> 148 = 1 + 146 + (1::nat)"
proof -
  let ?rs = "[1, 1, 1, 9 / 10, 1, 1, 9 / 10, 1, 1, 9 / 10, 1, 1] :: real list"
  have rs: "list_all (\<lambda>r. 0 < r \<and> r \<le> 1) ?rs" by simp
  obtain blks where blks: "init_blocks (arg_sublayers args) 0 ?rs = Inr blks"
      "map keep_rate blks = ?rs"
      "list_all (\<lambda>b. \<exists>k. attn_branch b = fst (arg_sublayers args k) \<and>
                          mlp_branch b = snd (arg_sublayers args k)) blks"
    by (rule init_blocks_ok [OF rs])
  have ok: "list_all (\<lambda>b. shape_ok (attn_branch b) (mlp_branch b) \<and> 0 < keep_rate b) blks"
  proof -
    have "\<forall>b\<in>set blks. 0 < keep_rate b"
    proof
      fix b assume "b \<in> set blks"
      then have "keep_rate b \<in> set (map keep_rate blks)" by simp
      then show "0 < keep_rate b" unfolding blks(2) by auto
    qed
    moreover have "\<forall>b\<in>set blks. shape_ok (attn_branch b) (mlp_branch b)"
      using blks(3) assms(7) by (auto simp: list_all_iff)
    ultimately show ?thesis by (simp add: list_all_iff)
  qed
  have tr: "set_token_ratio (replicate (arg_depth args) 1)
       (zip (arg_reduction_loc args) (arg_keep_rate args)) = Inr ?rs"
    unfolding assms(1,2,3) by (rule token_ratio_full_example)
  have len: "length (arg_keep_rate args) = length (arg_reduction_loc args)"
      "length (arg_keep_rate args) \<noteq> 1"
    unfolding assms(2,3) by simp_all
  have "num_prefix_tokens_of (arg_class_token args) (arg_reg_tokens args) = 1"
    using assms(4,5) by (simp add: num_prefix_tokens_of_def)
  then obtain model where model: "EViT_init args = Inr model" "blocks model = blks"
      "\<not> clc model" "num_prefix_tokens model = 1"
    using EViT_init_no_cache [OF len tr blks(1) assms(6)] by (elim exE conjE) simp
  have init: "tokens (init_state model x0) = x0" by (simp add: init_state_def)
  have sl: "stage_lengths (map keep_rate blks) (length (tokens (init_state model x0))) =
          Some [197, 197, 197, 179, 179, 179, 163, 163, 163, 148, 148, 148]"
    unfolding blks(2) init assms(8) by (rule stage_lengths_example)
  have pos: "0 < length (tokens (init_state model x0))" unfolding init assms(8) by simp
  obtain trace where trace: "stages model 0 blks (init_state model x0) = Inr trace"
      "map (\<lambda>st. length (tokens st)) trace =
         [197, 197, 197, 179, 179, 179, 163, 163, 163, 148, 148, 148]"
    by (rule stages_lengths_ok [OF model(3) ok pos sl])
  have fw: "forward_blocks model x0 = Inr trace"
    using trace(1) model(2) by (simp add: forward_blocks_def)
  have l1: "left_tokens_of (9 / 10) 197 = 177" by (simp add: left_tokens_of_def)
  have l2: "left_tokens_of (9 / 10) 179 = 161" by (simp add: left_tokens_of_def)
  have l3: "left_tokens_of (9 / 10) 163 = 146" by (simp add: left_tokens_of_def)
  show ?thesis
    apply (rule exI [of _ model])
    apply (rule exI [of _ trace])
    apply (intro conjI)
    apply (rule model(1))
    apply (rule model(4))
    apply (rule fw)
    apply (rule trace(2))
    apply (rule l1)
    apply simp
    apply (rule l2)
    apply simp
    apply (rule l3)
    apply simp
    done
qed

theorem length_trajectory_witness:
  "\<exists>model trace.
           EViT_init ex_args = Inr model \<and> num_prefix_tokens model = 1 \<and>
           forward_blocks model (replicate 197 (0::real)) = Inr trace \<and>
           map (\<lambda>st. length (tokens st)) trace =
             [197, 197, 197, 179, 179, 179, 163, 163, 163, 148, 148, 148] \<and>
           left_tokens_of (9 / 10) 197 = 177 \<and> 179 = 1 + 177 + (1::nat) \<and>
           left_tokens_of (9 / 10) 179 = 161 \<and> 163 = 1 + 161 + (1::nat) \<and>
           left_tokens_of (9 / 10) 163 = 146 \<and> 148 = 1 + 146 + (1::nat)"
  by (rule length_trajectory) (simp_all add: ex_args_def ex_shape_ok)

subsection \<open>The cross-layer cache\<close>



lemma cache_model_init: "EViT_init cache_args = Inr cache_model"
  by (simp add: EViT_init_def cache_args_def cache_model_def Let_def err_bind_def py_index_def
      Block_init_def ex_block_def num_prefix_tokens_of_def numeral_3_eq_3 numeral_2_eq_2)

lemma cache_state_reached:
  "stage cache_model 0 (ex_block 1) (init_state cache_model [10, 20, 30, 40, 50]) = Inr cache_state"
  by code_simp




subsection \<open>Construction\<close>

lemma py_index_less: "py_index n i = Some p \<Longrightarrow> p < n"
  by (auto simp: py_index_def split: if_splits)

lemma set_token_ratio_length:
  "set_token_ratio full lrs = Inr full' \<Longrightarrow> length full' = length full"
  by (induction lrs arbitrary: full) (auto split: option.splits)

lemma set_token_ratio_untouched:
  "set_token_ratio full lrs = Inr full' \<Longrightarrow>
   Some p \<notin> set (map (\<lambda>lr. py_index (length full) (fst lr)) lrs) \<Longrightarrow> full' ! p = full ! p"
proof (induction lrs arbitrary: full)
  case Nil
  then show ?case by simp
next
  case (Cons lr lrs)
  obtain l r where lr: "lr = (l, r)" by (cases lr)
  obtain q where q: "py_index (length full) l = Some q"
      "set_token_ratio (full[q := r]) lrs = Inr full'"
    using Cons.prems(1) lr by (auto split: option.splits)
  have "q \<noteq> p" using Cons.prems(2) lr q(1) by auto
  moreover have "full' ! p = full[q := r] ! p"
    using Cons.IH [OF q(2)] Cons.prems(2) by simp
  ultimately show ?case by simp
qed

lemma set_token_ratio_assigned:
  "set_token_ratio full lrs = Inr full' \<Longrightarrow>
   distinct (map (\<lambda>lr. py_index (length full) (fst lr)) lrs) \<Longrightarrow>
   (l, r) \<in> set lrs \<Longrightarrow> r \<in> set full'"
proof (induction lrs arbitrary: full)
  case Nil
  then show ?case by simp
next
  case (Cons lr lrs)
  obtain l0 r0 where lr: "lr = (l0, r0)" by (cases lr)
  obtain q where q: "py_index (length full) l0 = Some q"
      "set_token_ratio (full[q := r0]) lrs = Inr full'"
    using Cons.prems(1) lr by (auto split: option.splits)
  have len: "length full' = length full" using set_token_ratio_length [OF q(2)] by simp
  show ?case
  proof (cases "(l, r) = (l0, r0)")
    case True
    have "Some q \<notin> set (map (\<lambda>lr. py_index (length (full[q := r0])) (fst lr)) lrs)"
      using Cons.prems(2) lr q(1) by auto
    then have "full' ! q = full[q := r0] ! q" by (rule set_token_ratio_untouched [OF q(2)])
    then have "full' ! q = r" using True py_index_less [OF q(1)] by simp
    then show ?thesis using py_index_less [OF q(1)] len by (metis nth_mem)
  next
    case False
    then have "(l, r) \<in> set lrs" using Cons.prems(3) lr by auto
    moreover have "distinct (map (\<lambda>lr. py_index (length (full[q := r0])) (fst lr)) lrs)"
      using Cons.prems(2) by simp
    ultimately show ?thesis using Cons.IH [OF q(2)] by blast
  qed
qed

lemma init_blocks_rejects:
  "\<not> list_all (\<lambda>r. 0 < r \<and> r \<le> 1) rs \<Longrightarrow> init_blocks sub i rs = Inl AssertionError"
proof (induction rs arbitrary: i)
  case Nil
  then show ?case by simp
next
  case (Cons r rs)
  show ?case
  proof (cases "0 < r \<and> r \<le> 1")
    case True
    then have "init_blocks sub (Suc i) rs = Inl AssertionError" using Cons by simp
    then show ?thesis using True by (simp add: Block_init_def err_bind_def)
  next
    case False
    then show ?thesis by (auto simp: Block_init_def err_bind_def)
  qed
qed

lemma EViT_init_length_mismatch:
  "length (arg_keep_rate args) \<noteq> length (arg_reduction_loc args) \<Longrightarrow>
   length (arg_keep_rate args) \<noteq> 1 \<Longrightarrow> EViT_init args = Inl AssertionError"
  by (simp add: EViT_init_def Let_def)

lemma EViT_init_no_carrier:
  "arg_clc args \<Longrightarrow> arg_num_clr args = 0 \<Longrightarrow> \<not> arg_clc_include_gap args \<Longrightarrow>
   \<exists>e. EViT_init args = Inl e"
  by (simp add: EViT_init_def Let_def err_bind_def split: sum.splits)

lemma EViT_init_bad_rate:
  assumes "distinct (map (py_index (arg_depth args)) (arg_reduction_loc args))"
    "arg_reduction_loc args \<noteq> []"
    "r \<in> set (arg_keep_rate args)" "\<not> (0 < r \<and> r \<le> 1)"
  shows "\<exists>e. EViT_init args = Inl e"
proof -
  let ?loc = "arg_reduction_loc args" and ?kr = "arg_keep_rate args"
  let ?tr = "if length ?kr = 1 then map (\<lambda>_. ?kr ! 0) ?loc else ?kr"
  show ?thesis
  proof (cases "length ?tr = length ?loc")
    case False
    then show ?thesis by (simp add: EViT_init_def Let_def)
  next
    case True
    have "r \<in> set ?tr"
    proof (cases "length ?kr = 1")
      case True
      then have "?kr = [r]" using assms(3) by (cases ?kr) auto
      then show ?thesis using assms(2) True by (cases "arg_reduction_loc args") simp_all
    next
      case False
      then show ?thesis using assms(3) by simp
    qed
    then obtain l where lr: "(l, r) \<in> set (zip ?loc ?tr)"
      using True by (metis in_set_impl_in_set_zip2)
    show ?thesis
    proof (cases "set_token_ratio (replicate (arg_depth args) 1) (zip ?loc ?tr)")
      case (Inl e)
      then show ?thesis using True by (simp add: EViT_init_def Let_def err_bind_def)
    next
      case (Inr full)
      have "map (\<lambda>lr. py_index (length (replicate (arg_depth args) (1::real))) (fst lr)) (zip ?loc ?tr) =
            map (py_index (arg_depth args)) ?loc"
        using True by (simp add: map_fst_zip flip: map_map [unfolded comp_def])
      then have "distinct (map (\<lambda>lr. py_index (length (replicate (arg_depth args) (1::real))) (fst lr))
                   (zip ?loc ?tr))"
        using assms(1) by simp
      then have "r \<in> set full" using set_token_ratio_assigned [OF Inr _ lr] by blast
      then have "\<not> list_all (\<lambda>r. 0 < r \<and> r \<le> 1) full"
        using assms(4) by (auto simp: list_all_iff)
      then have "init_blocks (arg_sublayers args) 0 full = Inl AssertionError"
        by (rule init_blocks_rejects)
      then show ?thesis using True Inr by (simp add: EViT_init_def Let_def err_bind_def)
    qed
  qed
qed

text \<open>
  C8, as the code has it. Construction fails when the number of keep rates is neither
  the number of reduction locations nor \<open>1\<close>; when the reduction locations are not
  empty and name distinct stages, and some keep rate is outside \<open>(0, 1]\<close> (the check is
  the one of \<^verbatim>\<open>Block.__init__\<close>, on the rate a block is built with); and when the
  cache is enabled with \<open>num_clr = 0\<close> and without the pooled carrier.
\<close>

theorem construction_rejects_bad_configuration:
  "(length (arg_keep_rate args) \<noteq> length (arg_reduction_loc args) \<and>
      length (arg_keep_rate args) \<noteq> 1 \<longrightarrow> EViT_init args = Inl AssertionError) \<and>
   (distinct (map (py_index (arg_depth args)) (arg_reduction_loc args)) \<and>
      arg_reduction_loc args \<noteq> [] \<and>
      (\<exists>r\<in>set (arg_keep_rate args). \<not> (0 < r \<and> r \<le> 1)) \<longrightarrow>
      (\<exists>e. EViT_init args = Inl e)) \<and>
   (arg_clc args \<and> arg_num_clr args = 0 \<and> \<not> arg_clc_include_gap args \<longrightarrow>
      (\<exists>e. EViT_init args = Inl e))"
  using EViT_init_length_mismatch [of args] EViT_init_bad_rate [of args]
    EViT_init_no_carrier [of args]
  by blast

theorem construction_rejects_bad_configuration_witness:
  "EViT_init (ex_args\<lparr>arg_keep_rate := [9 / 10, 9 / 10]\<rparr>) = Inl AssertionError \<and>
   (\<exists>e. EViT_init (ex_args\<lparr>arg_keep_rate := [3 / 2]\<rparr>) = Inl e) \<and>
   (\<exists>e. EViT_init (ex_args\<lparr>arg_clc := True\<rparr>) = Inl e)"
proof (intro conjI)
  show "EViT_init (ex_args\<lparr>arg_keep_rate := [9 / 10, 9 / 10]\<rparr>) = Inl AssertionError"
    by (rule construction_rejects_bad_configuration [THEN conjunct1, rule_format])
       (simp add: ex_args_def)
  show "\<exists>e. EViT_init (ex_args\<lparr>arg_keep_rate := [3 / 2]\<rparr>) = Inl e"
    by (rule construction_rejects_bad_configuration [THEN conjunct2, THEN conjunct1, rule_format])
       (simp add: ex_args_def py_index_def, rule exI [of _ "3 / 2"], simp)
  show "\<exists>e. EViT_init (ex_args\<lparr>arg_clc := True\<rparr>) = Inl e"
    by (rule construction_rejects_bad_configuration [THEN conjunct2, THEN conjunct2, rule_format])
       (simp add: ex_args_def)
qed

text \<open>
  A keep rate of \<open>1.5\<close> that no block is built with is not checked: with no reduction
  location, or with a second entry for the same location, construction succeeds.
\<close>

theorem unused_keep_rate_unchecked_counterexample:
  "map_sum id (\<lambda>m. (token_ratio m, map keep_rate (blocks m)))
     (EViT_init (ex_args\<lparr>arg_reduction_loc := [], arg_keep_rate := [3 / 2]\<rparr>)) =
     Inr ([], [1, 1, 1, 1, 1, 1, 1, 1, 1, 1, 1, 1]) \<and>
   map_sum id (\<lambda>m. (token_ratio m, map keep_rate (blocks m)))
     (EViT_init (ex_args\<lparr>arg_reduction_loc := [3, 3], arg_keep_rate := [3 / 2, 9 / 10]\<rparr>)) =
     Inr ([3 / 2, 9 / 10], [1, 1, 1, 9 / 10, 1, 1, 1, 1, 1, 1, 1, 1])"
  by code_simp

end
